theory Spec2Isabelle
  imports Main "HOL-Library.Word" "HOL-Library.Sublist"
begin

unbundle bit_operations_syntax

section \<open>Characters, bytes and strings\<close>

text \<open>
  The helper \<^verbatim>\<open>docker/iowarp/cte_helper.cpp\<close> works on \<^verbatim>\<open>std::string\<close> (a sequence of
  \<^verbatim>\<open>char\<close>) and on byte buffers (\<^verbatim>\<open>std::vector<char>\<close>, \<^verbatim>\<open>const char*\<close> with a length).
  Text is modelled as \<^typ>\<open>string\<close>. A byte of a buffer is modelled by its bit pattern, an
  8-bit word: \<^verbatim>\<open>static_cast<unsigned char>\<close> and \<^verbatim>\<open>static_cast<char>\<close> keep the bit pattern.
\<close>

type_synonym byte = "8 word"

abbreviation dquote :: char where "dquote \<equiv> CHR 0x22"
abbreviation backslash :: char where "backslash \<equiv> CHR 0x5C"
abbreviation newline :: char where "newline \<equiv> CHR 0x0A"
abbreviation tab :: char where "tab \<equiv> CHR 0x09"
abbreviation space :: char where "space \<equiv> CHR 0x20"

text \<open>The integer value of a character, as used by the comparisons and subtractions of
  \<^verbatim>\<open>from_hex\<close>. The ranges tested there lie below 128, where signed and unsigned
  \<^verbatim>\<open>char\<close> agree.\<close>

definition ord :: "char \<Rightarrow> nat" where
  "ord c = of_char c"

section \<open>Hex codec\<close>

text \<open>\<^verbatim>\<open>static const char hex[] = "0123456789abcdef";\<close>\<close>

definition hex_digits :: string where
  "hex_digits = ''0123456789abcdef''"

text \<open>
  \<^verbatim>\<open>to_hex(data, len)\<close>: the loop \<^verbatim>\<open>for (size_t i = 0; i < len; i++)\<close> appends
  \<^verbatim>\<open>hex[c >> 4]\<close> and \<^verbatim>\<open>hex[c & 0x0f]\<close> for \<^verbatim>\<open>c = data[i]\<close>.
\<close>

function to_hex_loop :: "byte list \<Rightarrow> nat \<Rightarrow> nat \<Rightarrow> string \<Rightarrow> string" where
  "to_hex_loop data len i out =
     (if i < len
      then to_hex_loop data len (Suc i)
             (out @ [hex_digits ! unat (drop_bit 4 (data ! i)),
                     hex_digits ! unat ((data ! i) AND 0x0f)])
      else out)"
  by pat_completeness auto
termination
  by (relation "measure (\<lambda>(data, len, i, out). len - i)") auto

definition to_hex :: "byte list \<Rightarrow> nat \<Rightarrow> string" where
  "to_hex data len = to_hex_loop data len 0 []"

text \<open>
  The nibble computed from one character in \<^verbatim>\<open>from_hex\<close>. The source writes the same
  three-way test twice, once for \<^verbatim>\<open>hi\<close> from \<^verbatim>\<open>hex[i]\<close> and once for \<^verbatim>\<open>lo\<close> from
  \<^verbatim>\<open>hex[i+1]\<close>; both start from 0 and stay 0 when no test applies.
\<close>

definition hex_val :: "char \<Rightarrow> byte" where
  "hex_val c =
     (if ord (CHR ''0'') \<le> ord c \<and> ord c \<le> ord (CHR ''9'') then of_nat (ord c - ord (CHR ''0''))
      else if ord (CHR ''a'') \<le> ord c \<and> ord c \<le> ord (CHR ''f'') then of_nat (ord c - ord (CHR ''a'') + 10)
      else if ord (CHR ''A'') \<le> ord c \<and> ord c \<le> ord (CHR ''F'') then of_nat (ord c - ord (CHR ''A'') + 10)
      else 0)"

text \<open>
  \<^verbatim>\<open>from_hex(hex)\<close>: the loop \<^verbatim>\<open>for (size_t i = 0; i + 1 < hex.size(); i += 2)\<close> pushes
  \<^verbatim>\<open>(hi << 4) | lo\<close>.
\<close>

function from_hex_loop :: "string \<Rightarrow> nat \<Rightarrow> byte list \<Rightarrow> byte list" where
  "from_hex_loop hex i out =
     (if i + 1 < length hex
      then from_hex_loop hex (i + 2)
             (out @ [push_bit 4 (hex_val (hex ! i)) OR hex_val (hex ! (i + 1))])
      else out)"
  by pat_completeness auto
termination
  by (relation "measure (\<lambda>(hex, i, out). length hex - i)") auto

definition from_hex :: "string \<Rightarrow> byte list" where
  "from_hex hex = from_hex_loop hex 0 []"

text \<open>The two characters that \<^verbatim>\<open>to_hex\<close> appends for one byte.\<close>

definition hex_pair :: "byte \<Rightarrow> string" where
  "hex_pair c = [hex_digits ! unat (drop_bit 4 c), hex_digits ! unat (c AND 0x0f)]"

text \<open>The pairs of characters that \<^verbatim>\<open>from_hex\<close> consumes, as a recursion on the string.\<close>

fun decode_pairs :: "string \<Rightarrow> byte list" where
  "decode_pairs (a # b # rest) = (push_bit 4 (hex_val a) OR hex_val b) # decode_pairs rest"
| "decode_pairs [a] = []"
| "decode_pairs [] = []"

section \<open>Minimal JSON field extraction\<close>

text \<open>
  The members of \<^verbatim>\<open>std::string\<close> that \<^verbatim>\<open>json_get\<close> uses. \<^verbatim>\<open>npos\<close> is \<open>None\<close>.
  \<^verbatim>\<open>find(str)\<close> is the position of the first occurrence of \<^verbatim>\<open>str\<close>;
  \<^verbatim>\<open>find(ch, pos)\<close> and \<^verbatim>\<open>find_first_of(chars, pos)\<close> search from \<^verbatim>\<open>pos\<close> on;
  \<^verbatim>\<open>substr(pos, n)\<close> is called with \<^verbatim>\<open>pos \<le> size()\<close> only.
\<close>

fun find_str :: "string \<Rightarrow> string \<Rightarrow> nat option" where
  "find_str [] pat = (if pat = [] then Some 0 else None)"
| "find_str (c # cs) pat =
     (if prefix pat (c # cs) then Some 0 else map_option Suc (find_str cs pat))"

fun find_if :: "(char \<Rightarrow> bool) \<Rightarrow> string \<Rightarrow> nat option" where
  "find_if P [] = None"
| "find_if P (c # cs) = (if P c then Some 0 else map_option Suc (find_if P cs))"

definition find_char :: "string \<Rightarrow> char \<Rightarrow> nat \<Rightarrow> nat option" where
  "find_char s c pos = map_option (\<lambda>i. pos + i) (find_if (\<lambda>x. x = c) (drop pos s))"

definition find_first_of :: "string \<Rightarrow> string \<Rightarrow> nat \<Rightarrow> nat option" where
  "find_first_of s chars pos = map_option (\<lambda>i. pos + i) (find_if (\<lambda>x. x \<in> set chars) (drop pos s))"

definition substr :: "string \<Rightarrow> nat \<Rightarrow> nat \<Rightarrow> string" where
  "substr s pos n = take n (drop pos s)"

text \<open>\<^verbatim>\<open>while (pos < json.size() && (json[pos] == ' ' || json[pos] == '\t')) pos++;\<close>\<close>

function skip_blanks :: "string \<Rightarrow> nat \<Rightarrow> nat" where
  "skip_blanks json pos =
     (if pos < length json \<and> (json ! pos = space \<or> json ! pos = tab)
      then skip_blanks json (Suc pos) else pos)"
  by pat_completeness auto
termination
  by (relation "measure (\<lambda>(json, pos). length json - pos)") auto

text \<open>\<^verbatim>\<open>while (!val.empty() && (val.back() == ' ' || val.back() == '\n')) val.pop_back();\<close>\<close>

function trim_back :: "string \<Rightarrow> string" where
  "trim_back val =
     (if val \<noteq> [] \<and> (last val = space \<or> last val = newline)
      then trim_back (butlast val) else val)"
  by pat_completeness auto
termination
  by (relation "measure length") auto

definition json_get :: "string \<Rightarrow> string \<Rightarrow> string" where
  "json_get json key =
     (let search = [dquote] @ key @ [dquote, CHR '':''] in
      case find_str json search of
        None \<Rightarrow> []
      | Some p \<Rightarrow>
          (let pos = skip_blanks json (p + length search) in
           if pos \<ge> length json then []
           else if json ! pos = dquote then
             (case find_char json dquote (pos + 1) of
                None \<Rightarrow> []
              | Some e \<Rightarrow> substr json (pos + 1) (e - (pos + 1)))
           else
             (let e = (case find_first_of json '',}]'' pos of
                         None \<Rightarrow> length json
                       | Some e \<Rightarrow> e)
              in trim_back (substr json pos (e - pos)))))"

section \<open>Response encoding\<close>

text \<open>\<^verbatim>\<open>escape_json\<close>: the range-for appends to \<^verbatim>\<open>out\<close> what the first matching test gives.\<close>

fun escape_json :: "string \<Rightarrow> string" where
  "escape_json [] = []"
| "escape_json (c # s) =
     (if c = dquote then [backslash, dquote]
      else if c = backslash then [backslash, backslash]
      else if c = newline then [backslash, CHR ''n'']
      else if c = tab then [backslash, CHR ''t'']
      else [c]) @ escape_json s"

text \<open>\<^verbatim>\<open>std::to_string\<close> of an unsigned value: its decimal digits.\<close>

definition digit_char :: "nat \<Rightarrow> char" where
  "digit_char d = char_of (ord (CHR ''0'') + d)"

function to_string :: "nat \<Rightarrow> string" where
  "to_string n = (if n < 10 then [digit_char n] else to_string (n div 10) @ [digit_char (n mod 10)])"
  by pat_completeness auto
termination
  by (relation "measure id") auto

text \<open>
  The loop that the source writes three times, for targets, blobs and tags:
  \<^verbatim>\<open>for (size_t i = 0; i < v.size(); i++) { if (i > 0) arr += ","; arr += "\"" + escape_json(v[i]) + "\""; }\<close>
\<close>

definition quoted_items :: "string list \<Rightarrow> string" where
  "quoted_items v =
     concat (map (\<lambda>(i, x). (if i > 0 then '','' else []) @ [dquote] @ escape_json x @ [dquote])
                 (enumerate 0 v))"

section \<open>The storage engine as a parameter\<close>

text \<open>
  The content transfer engine (\<^verbatim>\<open>wrp_cte::core\<close>, \<^verbatim>\<open>chimaera\<close>) is an external library.
  The helper only calls it, so the model takes it as a parameter: a record of operations on
  an engine state \<open>'s\<close>. Every operation may throw. The helper tells two kinds of exception
  apart, those derived from \<^verbatim>\<open>std::exception\<close> (with their \<^verbatim>\<open>what()\<close> text) and all
  others (\<^verbatim>\<open>catch (...)\<close>).
\<close>

datatype exn = StdException string | OtherException

type_synonym u64 = "64 word"

record ('s, 't, 'i) facade =
  WRP_CTE_CLIENT_INIT :: "'s \<Rightarrow> (exn + bool) \<times> 's"
  ListTargets :: "'s \<Rightarrow> (exn + string list) \<times> 's"
  Tag :: "string \<Rightarrow> 's \<Rightarrow> (exn + 't) \<times> 's"
  PutBlob :: "'t \<Rightarrow> string \<Rightarrow> byte list \<Rightarrow> 's \<Rightarrow> (exn + unit) \<times> 's"
  GetBlobSize :: "'t \<Rightarrow> string \<Rightarrow> 's \<Rightarrow> (exn + u64) \<times> 's"
  GetBlob :: "'t \<Rightarrow> string \<Rightarrow> nat \<Rightarrow> 's \<Rightarrow> (exn + byte list) \<times> 's"
  GetContainedBlobs :: "'t \<Rightarrow> 's \<Rightarrow> (exn + string list) \<times> 's"
  GetTagId :: "'t \<Rightarrow> 's \<Rightarrow> (exn + 'i) \<times> 's"
  TagQuery :: "string \<Rightarrow> 's \<Rightarrow> (exn + string list) \<times> 's"
  DelBlob :: "'i \<Rightarrow> string \<Rightarrow> 's \<Rightarrow> (exn + unit) \<times> 's"
  DelTag :: "string \<Rightarrow> 's \<Rightarrow> (exn + unit) \<times> 's"

text \<open>
  What an observer of the process sees, in order: a line taken from standard input by
  \<^verbatim>\<open>std::getline\<close>, a line written (and flushed) to standard output by \<^verbatim>\<open>respond\<close>, and a
  call into the storage engine.
\<close>

datatype fcall =
    INIT_call
  | ListTargets_call
  | Tag_call string
  | PutBlob_call string "byte list"
  | GetBlobSize_call string
  | GetBlob_call string nat
  | GetContainedBlobs_call
  | GetTagId_call
  | TagQuery_call string
  | DelBlob_call string
  | DelTag_call string

datatype event = Read string | Write string | Call fcall

record 's world =
  cte :: 's
  trace :: "event list"

type_synonym ('a, 's) action = "'s world \<Rightarrow> (exn + 'a) \<times> 's world"

definition call :: "fcall \<Rightarrow> ('s \<Rightarrow> (exn + 'a) \<times> 's) \<Rightarrow> ('a, 's) action" where
  "call c op w = (case op (cte w) of (r, s') \<Rightarrow> (r, \<lparr>cte = s', trace = trace w @ [Call c]\<rparr>))"

text \<open>Sequencing inside a \<^verbatim>\<open>try\<close> block: an exception skips the rest of the block.\<close>

definition and_then :: "('a, 's) action \<Rightarrow> ('a \<Rightarrow> ('b, 's) action) \<Rightarrow> ('b, 's) action" where
  "and_then m f w = (case m w of (Inl e, w') \<Rightarrow> (Inl e, w') | (Inr a, w') \<Rightarrow> f a w')"

section \<open>Responses\<close>

definition respond :: "string \<Rightarrow> 's world \<Rightarrow> 's world" where
  "respond json w = w\<lparr>trace := trace w @ [Write json]\<rparr>"

definition respond_ok :: "string \<Rightarrow> 's world \<Rightarrow> 's world" where
  \<open>respond_ok extra w =
     (if extra = [] then respond ''{"status":"ok"}'' w
      else respond (''{"status":"ok",'' @ extra @ ''}'') w)\<close>

definition respond_error :: "string \<Rightarrow> 's world \<Rightarrow> 's world" where
  \<open>respond_error msg w = respond (''{"status":"error","message":"'' @ escape_json msg @ ''"}'') w\<close>

section \<open>The command handlers\<close>

text \<open>
  How a branch of the \<^verbatim>\<open>if\<close>/\<open>else if\<close> chain in the \<^verbatim>\<open>try\<close> block leaves it:
  by \<^verbatim>\<open>continue\<close>, by \<^verbatim>\<open>break\<close>, or by reaching its end.
\<close>

datatype flow = Continue | Break | Done

definition finish :: "flow \<Rightarrow> ('s world \<Rightarrow> 's world) \<Rightarrow> (flow, 's) action" where
  "finish fl out w = (Inr fl, out w)"

definition handle_put :: "('s, 't, 'i) facade \<Rightarrow> string \<Rightarrow> (flow, 's) action" where
  \<open>handle_put fac line =
     (let tag_name = json_get line ''tag'';
          blob_name = json_get line ''blob'';
          hex_data = json_get line ''data''
      in if tag_name = [] \<or> blob_name = []
         then finish Continue (respond_error ''put requires tag and blob'')
         else (let data = from_hex hex_data in
           and_then (call (Tag_call tag_name) (Tag fac tag_name)) (\<lambda>tag.
           and_then (call (PutBlob_call blob_name data) (PutBlob fac tag blob_name data)) (\<lambda>_.
           finish Done (respond_ok (''"size":'' @ to_string (length data)))))))\<close>

text \<open>
  In \<^verbatim>\<open>get\<close> the buffer \<^verbatim>\<open>std::vector<char> buf(size)\<close> starts as \<^verbatim>\<open>size\<close> zero bytes;
  \<^verbatim>\<open>GetBlob\<close> gives the bytes it writes at the start of the buffer. Allocation is taken to
  succeed.
\<close>

definition handle_get :: "('s, 't, 'i) facade \<Rightarrow> string \<Rightarrow> (flow, 's) action" where
  \<open>handle_get fac line =
     (let tag_name = json_get line ''tag'';
          blob_name = json_get line ''blob''
      in if tag_name = [] \<or> blob_name = []
         then finish Continue (respond_error ''get requires tag and blob'')
         else
           and_then (call (Tag_call tag_name) (Tag fac tag_name)) (\<lambda>tag.
           and_then (call (GetBlobSize_call blob_name) (GetBlobSize fac tag blob_name)) (\<lambda>size.
           if size = 0
           then finish Continue (respond_error ''blob not found or empty'')
           else
             and_then (call (GetBlob_call blob_name (unat size)) (GetBlob fac tag blob_name (unat size)))
               (\<lambda>written.
                  let buf = take (unat size) (written @ replicate (unat size) 0) in
                  finish Done (respond_ok (''"size":'' @ to_string (unat size) @
                                 '',"data":"'' @ to_hex buf (unat size) @ ''"''))))))\<close>

definition handle_get_size :: "('s, 't, 'i) facade \<Rightarrow> string \<Rightarrow> (flow, 's) action" where
  \<open>handle_get_size fac line =
     (let tag_name = json_get line ''tag'';
          blob_name = json_get line ''blob''
      in and_then (call (Tag_call tag_name) (Tag fac tag_name)) (\<lambda>tag.
         and_then (call (GetBlobSize_call blob_name) (GetBlobSize fac tag blob_name)) (\<lambda>size.
         finish Done (respond_ok (''"size":'' @ to_string (unat size))))))\<close>

definition handle_list_blobs :: "('s, 't, 'i) facade \<Rightarrow> string \<Rightarrow> (flow, 's) action" where
  \<open>handle_list_blobs fac line =
     (let tag_name = json_get line ''tag''
      in and_then (call (Tag_call tag_name) (Tag fac tag_name)) (\<lambda>tag.
         and_then (call GetContainedBlobs_call (GetContainedBlobs fac tag)) (\<lambda>blobs.
         finish Done (respond_ok (''"blobs":'' @ ''['' @ quoted_items blobs @ '']'')))))\<close>

definition handle_tag_query :: "('s, 't, 'i) facade \<Rightarrow> string \<Rightarrow> (flow, 's) action" where
  \<open>handle_tag_query fac line =
     (let pattern = json_get line ''pattern'';
          pattern = (if pattern = [] then ''.*'' else pattern)
      in and_then (call (TagQuery_call pattern) (TagQuery fac pattern)) (\<lambda>tags.
         finish Done (respond_ok (''"tags":'' @ ''['' @ quoted_items tags @ '']''))))\<close>

definition handle_del_blob :: "('s, 't, 'i) facade \<Rightarrow> string \<Rightarrow> (flow, 's) action" where
  \<open>handle_del_blob fac line =
     (let tag_name = json_get line ''tag'';
          blob_name = json_get line ''blob''
      in and_then (call (Tag_call tag_name) (Tag fac tag_name)) (\<lambda>tag.
         and_then (call GetTagId_call (GetTagId fac tag)) (\<lambda>tag_id.
         and_then (call (DelBlob_call blob_name) (DelBlob fac tag_id blob_name)) (\<lambda>_.
         finish Done (respond_ok [])))))\<close>

definition handle_del_tag :: "('s, 't, 'i) facade \<Rightarrow> string \<Rightarrow> (flow, 's) action" where
  \<open>handle_del_tag fac line =
     (let tag_name = json_get line ''tag''
      in and_then (call (DelTag_call tag_name) (DelTag fac tag_name)) (\<lambda>_.
         finish Done (respond_ok [])))\<close>

text \<open>The body of the \<^verbatim>\<open>try\<close> block: the chain of comparisons of \<^verbatim>\<open>cmd\<close>.\<close>

definition try_body :: "('s, 't, 'i) facade \<Rightarrow> string \<Rightarrow> string \<Rightarrow> (flow, 's) action" where
  \<open>try_body fac line cmd =
     (if cmd = ''put'' then handle_put fac line
      else if cmd = ''get'' then handle_get fac line
      else if cmd = ''get_size'' then handle_get_size fac line
      else if cmd = ''list_blobs'' then handle_list_blobs fac line
      else if cmd = ''tag_query'' then handle_tag_query fac line
      else if cmd = ''del_blob'' then handle_del_blob fac line
      else if cmd = ''del_tag'' then handle_del_tag fac line
      else if cmd = ''ping'' then finish Done (respond_ok [])
      else if cmd = ''quit'' \<or> cmd = ''exit'' then finish Break (respond_ok [])
      else finish Done (respond_error (''unknown command: '' @ cmd)))\<close>

section \<open>The processing loop and \<^verbatim>\<open>main\<close>\<close>

text \<open>\<^verbatim>\<open>if (line.empty() || line[0] == '#') continue;\<close>\<close>

definition skipped :: "string \<Rightarrow> bool" where
  "skipped line = (line = [] \<or> hd line = CHR ''#'')"

text \<open>One pass through the body of \<^verbatim>\<open>while (std::getline(std::cin, line))\<close>, for the line read.\<close>

definition iteration :: "('s, 't, 'i) facade \<Rightarrow> string \<Rightarrow> 's world \<Rightarrow> flow \<times> 's world" where
  \<open>iteration fac line w0 =
     (let w = w0\<lparr>trace := trace w0 @ [Read line]\<rparr> in
      if skipped line then (Continue, w)
      else (let cmd = json_get line ''cmd'' in
        case try_body fac line cmd w of
          (Inr fl, w') \<Rightarrow> (fl, w')
        | (Inl (StdException what), w') \<Rightarrow> (Done, respond_error (''exception: '' @ what) w')
        | (Inl OtherException, w') \<Rightarrow> (Done, respond_error ''unknown exception'' w')))\<close>

text \<open>The loop over the lines of standard input; it ends at end of input or at \<^verbatim>\<open>break\<close>.\<close>

fun loop :: "('s, 't, 'i) facade \<Rightarrow> string list \<Rightarrow> 's world \<Rightarrow> 's world" where
  "loop fac [] w = w"
| "loop fac (line # rest) w =
     (case iteration fac line w of
        (Break, w') \<Rightarrow> w'
      | (_, w') \<Rightarrow> loop fac rest w')"

text \<open>
  How the process ends: \<^verbatim>\<open>return n\<close> from \<^verbatim>\<open>main\<close>, or an exception that leaves
  \<^verbatim>\<open>main\<close> uncaught (\<^verbatim>\<open>std::terminate\<close>).
\<close>

datatype exit_status = Exit int | Uncaught exn

text \<open>The second \<^verbatim>\<open>try\<close> block of \<^verbatim>\<open>main\<close>, which builds \<^verbatim>\<open>init_info\<close>.\<close>

definition targets_info :: "('s, 't, 'i) facade \<Rightarrow> 's world \<Rightarrow> string \<times> 's world" where
  \<open>targets_info fac w =
     (case call ListTargets_call (ListTargets fac) w of
        (Inr targets, w') \<Rightarrow>
          (''"targets":['' @ quoted_items targets @ ''],"target_count":'' @ to_string (length targets), w')
      | (Inl (StdException what), w') \<Rightarrow> (''"targets_error":"'' @ escape_json what @ ''"'', w')
      | (Inl OtherException, w') \<Rightarrow> (''"targets_error":"unknown"'', w'))\<close>

definition main :: "('s, 't, 'i) facade \<Rightarrow> string list \<Rightarrow> 's world \<Rightarrow> exit_status \<times> 's world" where
  \<open>main fac input w =
     (case call INIT_call (WRP_CTE_CLIENT_INIT fac) w of
        (Inr ok, w1) \<Rightarrow>
          if \<not> ok then (Exit 1, respond_error ''WRP_CTE_CLIENT_INIT failed'' w1)
          else (case targets_info fac w1 of
                  (init_info, w2) \<Rightarrow>
                    (Exit 0, loop fac input (respond (''{"status":"ready",'' @ init_info @ ''}'') w2)))
      | (Inl (StdException what), w1) \<Rightarrow> (Exit 1, respond_error (''Init exception: '' @ what) w1)
      | (Inl OtherException, w1) \<Rightarrow> (Uncaught OtherException, w1))\<close>

section \<open>An in-memory storage engine\<close>

text \<open>
  A small stand-in for the storage engine, used to run the helper on concrete input:
  blobs are kept in an association list under their tag and blob names.
\<close>

type_synonym mem = "((string \<times> string) \<times> byte list) list"

definition mem_facade :: "(mem, string, string) facade" where
  "mem_facade =
     \<lparr> WRP_CTE_CLIENT_INIT = (\<lambda>s. (Inr True, s)),
       ListTargets = (\<lambda>s. (Inr [''ram''], s)),
       Tag = (\<lambda>name s. (Inr name, s)),
       PutBlob = (\<lambda>t b data s. (Inr (), ((t, b), data) # filter (\<lambda>(k, d). k \<noteq> (t, b)) s)),
       GetBlobSize = (\<lambda>t b s. (Inr (case map_of s (t, b) of None \<Rightarrow> 0 | Some d \<Rightarrow> of_nat (length d)), s)),
       GetBlob = (\<lambda>t b n s. (case map_of s (t, b) of
                               None \<Rightarrow> (Inl (StdException ''blob not found''), s)
                             | Some d \<Rightarrow> (Inr (take n d), s))),
       GetContainedBlobs = (\<lambda>t s. (Inr (map (\<lambda>(k, d). snd k) (filter (\<lambda>(k, d). fst k = t) s)), s)),
       GetTagId = (\<lambda>t s. (Inr t, s)),
       TagQuery = (\<lambda>pattern s. (Inr (remdups (map (\<lambda>(k, d). fst k) s)), s)),
       DelBlob = (\<lambda>i b s. (Inr (), filter (\<lambda>(k, d). k \<noteq> (i, b)) s)),
       DelTag = (\<lambda>t s. (Inr (), filter (\<lambda>(k, d). fst k \<noteq> t) s)) \<rparr>"

definition start :: "mem world" where
  "start = \<lparr>cte = [], trace = []\<rparr>"

text \<open>The same store with one operation replaced, to run the paths on which the engine fails.\<close>

definition throwing_put :: "exn \<Rightarrow> (mem, string, string) facade" where
  "throwing_put e = mem_facade\<lparr>PutBlob := (\<lambda>t b data s. (Inl e, s))\<rparr>"

definition throwing_init :: "exn \<Rightarrow> (mem, string, string) facade" where
  "throwing_init e = mem_facade\<lparr>WRP_CTE_CLIENT_INIT := (\<lambda>s. (Inl e, s))\<rparr>"

definition refusing_init :: "(mem, string, string) facade" where
  "refusing_init = mem_facade\<lparr>WRP_CTE_CLIENT_INIT := (\<lambda>s. (Inr False, s))\<rparr>"

section \<open>Notions for stating the protocol properties\<close>

text \<open>The lines read and the lines written, without the calls into the engine.\<close>

fun io_events :: "event list \<Rightarrow> event list" where
  "io_events [] = []"
| "io_events (Call c # es) = io_events es"
| "io_events (e # es) = e # io_events es"

fun reads :: "event list \<Rightarrow> string list" where
  "reads [] = []"
| "reads (Read l # es) = l # reads es"
| "reads (e # es) = reads es"

fun writes :: "event list \<Rightarrow> string list" where
  "writes [] = []"
| "writes (Write r # es) = r # writes es"
| "writes (e # es) = writes es"

text \<open>
  A sequence of reads and writes is framed when each line read is followed, before the next
  read, by exactly one written line if the line is a request, and by none if the line is
  blank or a comment.
\<close>

fun framed :: "event list \<Rightarrow> bool" where
  "framed [] = True"
| "framed (Read l # Write r # es) = (\<not> skipped l \<and> framed es)"
| "framed (Read l # es) = (skipped l \<and> framed es)"
| "framed (e # es) = False"

text \<open>A response occupies one line of output when it holds no newline character.\<close>

definition one_line :: "string \<Rightarrow> bool" where
  "one_line r = (newline \<notin> set r)"

text \<open>
  An action answers within \<open>P\<close> when, besides calls into the engine, it writes exactly one
  line, which satisfies \<open>P\<close>, if it ends normally, and writes nothing if it throws.
\<close>

definition answers :: "(string \<Rightarrow> bool) \<Rightarrow> (flow, 's) action \<Rightarrow> bool" where
  "answers P m =
     (\<forall>w w'.
        (\<forall>e. m w = (Inl e, w') \<longrightarrow> (\<exists>cs. trace w' = trace w @ map Call cs)) \<and>
        (\<forall>fl. m w = (Inr fl, w') \<longrightarrow>
           (\<exists>cs r. P r \<and> trace w' = trace w @ map Call cs @ [Write r])))"

section \<open>Properties of the hex codec\<close>

text \<open>The defining equations of the index-driven recursions unfold without end, so they are applied by hand.\<close>

declare to_hex_loop.simps [simp del]
declare from_hex_loop.simps [simp del]
declare skip_blanks.simps [simp del]
declare trim_back.simps [simp del]
declare to_string.simps [simp del]

lemma to_hex_loop_eq:
  "len \<le> length data \<Longrightarrow>
   to_hex_loop data len i out = out @ concat (map hex_pair (drop i (take len data)))"
proof (induction data len i out rule: to_hex_loop.induct)
  case (1 data len i out)
  show ?case
  proof (cases "i < len")
    case True
    with "1.prems" have "i < length (take len data)" by simp
    then have "drop i (take len data) = (take len data ! i) # drop (Suc i) (take len data)"
      by (rule Cons_nth_drop_Suc [symmetric])
    moreover have "hex_pair (data ! i) =
        [hex_digits ! unat (drop_bit 4 (data ! i)), hex_digits ! unat ((data ! i) AND 0x0f)]"
      by (simp add: hex_pair_def)
    ultimately show ?thesis
      using True "1.IH" "1.prems" by (subst to_hex_loop.simps) simp
  next
    case False
    then show ?thesis by (subst to_hex_loop.simps) simp
  qed
qed

lemma to_hex_eq: "to_hex data (length data) = concat (map hex_pair data)"
  by (simp add: to_hex_def to_hex_loop_eq)

lemma from_hex_loop_eq: "from_hex_loop hex i out = out @ decode_pairs (drop i hex)"
proof (induction hex i out rule: from_hex_loop.induct)
  case (1 hex i out)
  show ?case
  proof (cases "i + 1 < length hex")
    case True
    then have "drop i hex = hex ! i # hex ! (i + 1) # drop (i + 2) hex"
      by (simp add: Cons_nth_drop_Suc)
    with True "1.IH" show ?thesis by (subst from_hex_loop.simps) simp
  next
    case False
    then have "length (drop i hex) \<le> 1" by simp
    then have "decode_pairs (drop i hex) = []"
      by (cases "drop i hex" rule: decode_pairs.cases) simp_all
    with False show ?thesis by (subst from_hex_loop.simps) simp
  qed
qed

lemma from_hex_eq: "from_hex hex = decode_pairs hex"
  by (simp add: from_hex_def from_hex_loop_eq)

lemma hex_val_digit: "n < 16 \<Longrightarrow> hex_val (hex_digits ! n) = of_nat n"
proof -
  assume "n < 16"
  then have "n \<in> set [0..<16]" by simp
  also have "[0..<16] = [0,1,2,3,4,5,6,7,8,9,10,11,12,13,14,15::nat]" by code_simp
  finally show ?thesis
    by (auto simp: hex_val_def hex_digits_def ord_def)
qed

lemma low_nibble_take_bit: "(c AND 0x0f) = take_bit 4 (c::byte)"
  using take_bit_eq_mask [of 4 c] by (simp add: mask_eq_exp_minus_1)

lemma byte_split: "push_bit 4 (drop_bit 4 c) OR (c AND 0x0f) = (c :: byte)"
  unfolding low_nibble_take_bit
  by (rule bit_word_eqI) (auto simp: bit_or_iff bit_push_bit_iff bit_drop_bit_eq bit_take_bit_iff)

lemma high_nibble_less: "unat (drop_bit 4 (c::byte)) < 16"
proof -
  have "unat c < 2 ^ 8" using unsigned_less [of c] by simp
  moreover have "unat (drop_bit 4 c) = unat c div 2 ^ 4"
    by (simp add: drop_bit_eq_div unat_div)
  ultimately show ?thesis by simp
qed

lemma low_nibble_less: "unat ((c::byte) AND 0x0f) < 16"
proof -
  have "unat (c AND 0x0f) \<le> unat (0x0f :: byte)"
    by (rule word_and_le1 [THEN word_le_nat_alt [THEN iffD1]])
  then show ?thesis by simp
qed

lemma decode_hex_pair: "decode_pairs (hex_pair c @ rest) = c # decode_pairs rest"
proof -
  have "hex_val (hex_digits ! unat (drop_bit 4 c)) = drop_bit 4 c"
    by (simp add: hex_val_digit high_nibble_less)
  moreover have "hex_val (hex_digits ! unat (c AND 0x0f)) = c AND 0x0f"
    by (simp add: hex_val_digit low_nibble_less)
  ultimately show ?thesis
    using byte_split [of c] by (simp add: hex_pair_def)
qed

lemma decode_pairs_encode: "decode_pairs (concat (map hex_pair b)) = b"
  by (induction b) (simp_all add: decode_hex_pair)

lemma length_encode: "length (concat (map hex_pair b)) = 2 * length b"
  by (induction b) (simp_all add: hex_pair_def)

lemma encode_nth:
  "i < length b \<Longrightarrow>
   concat (map hex_pair b) ! (2 * i) = hex_pair (b ! i) ! 0 \<and>
   concat (map hex_pair b) ! (2 * i + 1) = hex_pair (b ! i) ! 1"
proof (induction b arbitrary: i)
  case Nil
  then show ?case by simp
next
  case (Cons c b)
  show ?case
  proof (cases i)
    case 0
    then show ?thesis by (simp add: hex_pair_def)
  next
    case (Suc j)
    with Cons.prems have "j < length b" by simp
    from Cons.IH [OF this] Suc show ?thesis
      by (simp add: hex_pair_def)
  qed
qed

lemma length_hex_digits: "length hex_digits = 16"
  by (simp add: hex_digits_def)

lemma encode_chars: "set (concat (map hex_pair b)) \<subseteq> set hex_digits"
proof -
  have "set (hex_pair c) \<subseteq> set hex_digits" for c
    using high_nibble_less [of c] low_nibble_less [of c]
    by (simp add: hex_pair_def length_hex_digits)
  then show ?thesis by (induction b) simp_all
qed

text \<open>
  Claim C3. Decoding the hex encoding of a byte sequence gives the sequence back:
  \<^verbatim>\<open>from_hex(to_hex(b)) == b\<close>. The encoding has two characters per byte, all of them
  among \<^verbatim>\<open>0123456789abcdef\<close>, and the character for the most significant nibble of
  each byte comes first.
\<close>

theorem hex_round_trip:
  "from_hex (to_hex b (length b)) = b \<and>
   length (to_hex b (length b)) = 2 * length b \<and>
   set (to_hex b (length b)) \<subseteq> set ''0123456789abcdef'' \<and>
   (\<forall>i < length b.
      to_hex b (length b) ! (2 * i) = ''0123456789abcdef'' ! (unat (b ! i) div 16) \<and>
      to_hex b (length b) ! (2 * i + 1) = ''0123456789abcdef'' ! (unat (b ! i) mod 16))"
proof -
  have hi: "unat (drop_bit 4 c) = unat c div 16" for c :: byte
    by (simp add: drop_bit_eq_div unat_div)
  have lo: "unat (c AND 0x0f) = unat c mod 16" for c :: byte
    by (simp add: low_nibble_take_bit take_bit_eq_mod unat_mod)
  have "from_hex (to_hex b (length b)) = b"
    by (simp add: to_hex_eq from_hex_eq decode_pairs_encode)
  moreover have "length (to_hex b (length b)) = 2 * length b"
    by (simp add: to_hex_eq length_encode)
  moreover have "set (to_hex b (length b)) \<subseteq> set ''0123456789abcdef''"
    using encode_chars [of b] by (simp only: to_hex_eq hex_digits_def)
  moreover have "\<forall>i < length b.
      to_hex b (length b) ! (2 * i) = ''0123456789abcdef'' ! (unat (b ! i) div 16) \<and>
      to_hex b (length b) ! (2 * i + 1) = ''0123456789abcdef'' ! (unat (b ! i) mod 16)"
    using encode_nth [of _ b] hi lo
    by (simp add: to_hex_eq hex_pair_def hex_digits_def)
  ultimately show ?thesis by blast
qed

theorem hex_round_trip_witness:
  "from_hex (to_hex [0x48, 0x65, 0xff] (length [0x48, 0x65, 0xff :: byte])) = [0x48, 0x65, 0xff] \<and>
   length (to_hex [0x48, 0x65, 0xff] (length [0x48, 0x65, 0xff :: byte])) = 6 \<and>
   to_hex [0x48, 0x65, 0xff] (length [0x48, 0x65, 0xff :: byte]) ! 2 = CHR ''6'' \<and>
   to_hex [0x48, 0x65, 0xff] (length [0x48, 0x65, 0xff :: byte]) ! 3 = CHR ''5''"
proof -
  let ?b = "[0x48, 0x65, 0xff :: byte]"
  have len: "(1::nat) < length ?b" by simp
  from hex_round_trip [of ?b]
  have rt: "from_hex (to_hex ?b (length ?b)) = ?b"
    and ln: "length (to_hex ?b (length ?b)) = 2 * length ?b"
    and nth: "\<forall>i < length ?b.
      to_hex ?b (length ?b) ! (2 * i) = ''0123456789abcdef'' ! (unat (?b ! i) div 16) \<and>
      to_hex ?b (length ?b) ! (2 * i + 1) = ''0123456789abcdef'' ! (unat (?b ! i) mod 16)"
    by blast+
  from nth len have
    "to_hex ?b (length ?b) ! (2 * 1) = ''0123456789abcdef'' ! (unat (?b ! 1) div 16) \<and>
     to_hex ?b (length ?b) ! (2 * 1 + 1) = ''0123456789abcdef'' ! (unat (?b ! 1) mod 16)"
    by blast
  then have "to_hex ?b (length ?b) ! 2 = CHR ''6'' \<and> to_hex ?b (length ?b) ! 3 = CHR ''5''"
    by simp
  with rt ln show ?thesis by simp
qed

lemma ord_bounds:
  "ord (CHR ''0'') = 48" "ord (CHR ''9'') = 57" "ord (CHR ''a'') = 97" "ord (CHR ''f'') = 102"
  "ord (CHR ''A'') = 65" "ord (CHR ''F'') = 70"
  by (simp_all add: ord_def)

lemma hex_val_zero_aux:
  assumes "c \<notin> set ''0123456789abcdefABCDEF''"
  shows "hex_val c = 0"
proof -
  have "inj ord" by (simp add: inj_def ord_def)
  with assms have "ord c \<notin> ord ` set ''0123456789abcdefABCDEF''"
    by (simp only: inj_image_mem_iff not_False_eq_True)
  also have "ord ` set ''0123456789abcdefABCDEF'' =
     {48, 49, 50, 51, 52, 53, 54, 55, 56, 57, 97, 98, 99, 100, 101, 102, 65, 66, 67, 68, 69, 70}"
    by (simp add: ord_def)
  finally have out: "ord c \<notin> {48, 49, 50, 51, 52, 53, 54, 55, 56, 57}"
    "ord c \<notin> {97, 98, 99, 100, 101, 102}" "ord c \<notin> {65, 66, 67, 68, 69, 70}"
    by simp_all
  have digit: "(48 \<le> ord c \<and> ord c \<le> 57) = False" using out(1) by (simp; arith)
  have lower: "(97 \<le> ord c \<and> ord c \<le> 102) = False" using out(2) by (simp; arith)
  have upper: "(65 \<le> ord c \<and> ord c \<le> 70) = False" using out(3) by (simp; arith)
  show ?thesis
    unfolding hex_val_def ord_bounds digit lower upper by simp
qed

lemma escape_json_append: "escape_json (s @ t) = escape_json s @ escape_json t"
  by (induction s) simp_all

lemma escape_json_id:
  "set s \<inter> {dquote, backslash, newline, tab} = {} \<Longrightarrow> escape_json s = s"
  by (induction s) auto

lemma decode_pairs_length: "length (decode_pairs s) = length s div 2"
  by (induction s rule: decode_pairs.induct) simp_all

lemma decode_pairs_nth:
  "k < length s div 2 \<Longrightarrow>
   decode_pairs s ! k = push_bit 4 (hex_val (s ! (2 * k))) OR hex_val (s ! (2 * k + 1))"
proof (induction s arbitrary: k rule: decode_pairs.induct)
  case (1 a b rest)
  then show ?case by (cases k) simp_all
qed simp_all

lemma and_then_call:
  "op (cte w) = (Inr a, s') \<Longrightarrow>
   and_then (call c op) f w = f a \<lparr>cte = s', trace = trace w @ [Call c]\<rparr>"
  by (simp add: and_then_def call_def)

lemma and_then_call_exn:
  "op (cte w) = (Inl e, s') \<Longrightarrow>
   and_then (call c op) f w = (Inl e, \<lparr>cte = s', trace = trace w @ [Call c]\<rparr>)"
  by (simp add: and_then_def call_def)

lemma handle_put_stores:
  assumes "json_get line ''tag'' \<noteq> []" and "json_get line ''blob'' \<noteq> []"
    and "Tag fac (json_get line ''tag'') (cte w) = (Inr t, s1)"
    and "PutBlob fac t (json_get line ''blob'') (from_hex (json_get line ''data'')) s1 = (Inr (), s2)"
  shows \<open>handle_put fac line w =
     (Inr Done, \<lparr>cte = s2, trace = trace w @
        [Call (Tag_call (json_get line ''tag'')),
         Call (PutBlob_call (json_get line ''blob'') (from_hex (json_get line ''data''))),
         Write (''{"status":"ok","size":'' @ to_string (length (json_get line ''data'') div 2) @ ''}'')]\<rparr>)\<close>
  using assms
  by (simp add: handle_put_def Let_def and_then_call finish_def respond_ok_def respond_def
      from_hex_eq decode_pairs_length)

text \<open>
  Claim C9. Hex decoding never fails: every string decodes to \<open>length s div 2\<close> bytes, each
  made of the nibbles of two characters, and a character outside \<^verbatim>\<open>[0-9a-fA-F]\<close> gives
  the nibble 0, so \<^verbatim>\<open>"zz"\<close> decodes to the single byte 0. A \<^verbatim>\<open>put\<close> whose tag and blob
  are present stores whatever bytes the decoder gives for its data field and answers Ok.
\<close>

theorem from_hex_total:
  \<open>length (from_hex s) = length s div 2 \<and>
   (\<forall>k < length s div 2.
      from_hex s ! k = push_bit 4 (hex_val (s ! (2 * k))) OR hex_val (s ! (2 * k + 1))) \<and>
   (c \<notin> set ''0123456789abcdefABCDEF'' \<longrightarrow> hex_val c = 0) \<and>
   from_hex ''zz'' = [0x00] \<and>
   (json_get line ''tag'' \<noteq> [] \<and> json_get line ''blob'' \<noteq> [] \<and>
    Tag fac (json_get line ''tag'') (cte w) = (Inr t, s1) \<and>
    PutBlob fac t (json_get line ''blob'') (from_hex (json_get line ''data'')) s1 = (Inr (), s2) \<longrightarrow>
    handle_put fac line w =
     (Inr Done, \<lparr>cte = s2, trace = trace w @
        [Call (Tag_call (json_get line ''tag'')),
         Call (PutBlob_call (json_get line ''blob'') (from_hex (json_get line ''data''))),
         Write (''{"status":"ok","size":'' @ to_string (length (json_get line ''data'') div 2) @ ''}'')]\<rparr>))\<close>
proof -
  have "length (from_hex s) = length s div 2"
    by (simp add: from_hex_eq decode_pairs_length)
  moreover have "\<forall>k < length s div 2.
      from_hex s ! k = push_bit 4 (hex_val (s ! (2 * k))) OR hex_val (s ! (2 * k + 1))"
    by (simp add: from_hex_eq decode_pairs_nth)
  moreover have "c \<notin> set ''0123456789abcdefABCDEF'' \<longrightarrow> hex_val c = 0"
    using hex_val_zero_aux by blast
  moreover have "from_hex ''zz'' = [0x00]"
    by (simp add: from_hex_eq hex_val_def ord_def)
  ultimately show ?thesis
    using handle_put_stores [of line fac w t s1 s2] by blast
qed

theorem from_hex_total_witness:
  \<open>hex_val (CHR ''z'') = 0 \<and>
   from_hex ''4z'' ! 0 = 0x40 \<and>
   handle_put mem_facade ''{"cmd":"put","tag":"t","blob":"b","data":"zz"}'' start =
     (Inr Done, \<lparr>cte = [((''t'', ''b''), [0])],
        trace = [Call (Tag_call ''t''), Call (PutBlob_call ''b'' [0]),
                 Write ''{"status":"ok","size":1}'']\<rparr>)\<close>
proof -
  let ?line = \<open>''{"cmd":"put","tag":"t","blob":"b","data":"zz"}''\<close>
  have tag: "json_get ?line ''tag'' = ''t''" and blob: "json_get ?line ''blob'' = ''b''"
    and data: "json_get ?line ''data'' = ''zz''"
    by code_simp+
  have zz: "from_hex ''zz'' = [0]" by code_simp
  have ts: "to_string (Suc 0) = ''1''" by code_simp
  have c: "CHR ''z'' \<notin> set ''0123456789abcdefABCDEF''" by simp
  have k: "(0::nat) < length ''4z'' div 2" by simp
  have opn: "Tag mem_facade (json_get ?line ''tag'') (cte start) = (Inr ''t'', [])"
    by (simp add: tag mem_facade_def start_def)
  have put: "PutBlob mem_facade ''t'' (json_get ?line ''blob'') (from_hex (json_get ?line ''data'')) []
       = (Inr (), [((''t'', ''b''), [0])])"
    by (simp add: blob data zz mem_facade_def)
  note inst = from_hex_total [where s = "''4z''" and c = "CHR ''z''" and line = ?line
      and fac = mem_facade and w = start and t = "''t''" and ?s1.0 = "[]"
      and ?s2.0 = "[((''t'', ''b''), [0])]"]
  from inst c have "hex_val (CHR ''z'') = 0" by blast
  moreover from inst k have "from_hex ''4z'' ! 0 = 0x40"
    by (simp add: hex_val_def ord_def)
  moreover from inst opn put have \<open>handle_put mem_facade ?line start =
     (Inr Done, \<lparr>cte = [((''t'', ''b''), [0])],
        trace = [Call (Tag_call ''t''), Call (PutBlob_call ''b'' [0]),
                 Write ''{"status":"ok","size":1}'']\<rparr>)\<close>
    by (simp add: tag blob data zz start_def ts)
  ultimately show ?thesis by blast
qed

text \<open>
  Claim C10. The escaper replaces exactly four characters (double quote, backslash,
  newline, tab) by two-character escape sequences and copies every other character, one
  character at a time; a message without these four characters, such as one with a carriage
  return, is written into the error response as it is.
\<close>

theorem escape_json_four_characters:
  \<open>escape_json [dquote] = [backslash, dquote] \<and>
   escape_json [backslash] = [backslash, backslash] \<and>
   escape_json [newline] = [backslash, CHR ''n''] \<and>
   escape_json [tab] = [backslash, CHR ''t''] \<and>
   (c \<notin> {dquote, backslash, newline, tab} \<longrightarrow> escape_json [c] = [c]) \<and>
   escape_json (s @ t) = escape_json s @ escape_json t \<and>
   (set msg \<inter> {dquote, backslash, newline, tab} = {} \<longrightarrow>
      respond_error msg w = respond (''{"status":"error","message":"'' @ msg @ ''"}'') w)\<close>
  by (simp add: escape_json_append escape_json_id respond_error_def)

theorem escape_json_four_characters_witness:
  \<open>escape_json [CHR 0x0D] = [CHR 0x0D] \<and>
   trace (respond_error [CHR ''a'', CHR 0x0D, CHR ''b''] start) =
     [Write (''{"status":"error","message":"'' @ [CHR ''a'', CHR 0x0D, CHR ''b''] @ ''"}'')]\<close>
proof -
  have c: "CHR 0x0D \<notin> {dquote, backslash, newline, tab}" by simp
  have m: "set [CHR ''a'', CHR 0x0D, CHR ''b''] \<inter> {dquote, backslash, newline, tab} = {}" by simp
  note inst = escape_json_four_characters [where c = "CHR 0x0D" and msg = "[CHR ''a'', CHR 0x0D, CHR ''b'']"
      and w = start]
  from inst c have "escape_json [CHR 0x0D] = [CHR 0x0D]" by blast
  moreover from inst m have \<open>respond_error [CHR ''a'', CHR 0x0D, CHR ''b''] start =
      respond (''{"status":"error","message":"'' @ [CHR ''a'', CHR 0x0D, CHR ''b''] @ ''"}'') start\<close>
    by blast
  ultimately show ?thesis by (simp add: respond_def start_def)
qed

section \<open>Properties of the field extractor\<close>

lemma skip_blanks_eq:
  "skip_blanks json pos = pos + length (takeWhile (\<lambda>c. c = space \<or> c = tab) (drop pos json))"
proof (induction json pos rule: skip_blanks.induct)
  case (1 json pos)
  show ?case
  proof (cases "pos < length json")
    case True
    then have d: "drop pos json = json ! pos # drop (Suc pos) json"
      by (simp add: Cons_nth_drop_Suc)
    show ?thesis
    proof (cases "json ! pos = space \<or> json ! pos = tab")
      case blank: True
      with True "1.IH" show ?thesis
        by (subst skip_blanks.simps) (auto simp: d)
    next
      case False
      with True show ?thesis
        by (subst skip_blanks.simps) (simp add: d)
    qed
  next
    case False
    then show ?thesis by (subst skip_blanks.simps) simp
  qed
qed

lemma find_if_first:
  "\<forall>x \<in> set xs. \<not> P x \<Longrightarrow> P y \<Longrightarrow> find_if P (xs @ y # ys) = Some (length xs)"
  by (induction xs) simp_all

lemma json_get_quoted_raw:
  assumes found: "find_str json ([dquote] @ key @ [dquote, CHR '':'']) = Some p"
    and shape: "drop (p + (length key + 3)) json = ws @ [dquote] @ v @ [dquote] @ rest"
    and blanks: "set ws \<subseteq> {space, tab}"
    and raw: "dquote \<notin> set v"
  shows "json_get json key = v"
proof -
  let ?search = "[dquote] @ key @ [dquote, CHR '':'']"
  let ?start = "p + (length key + 3)"
  let ?tail = "drop ?start json"
  define q where "q = ?start + length ws"
  have slen: "p + length ?search = ?start" by simp
  from blanks have "takeWhile (\<lambda>c. c = space \<or> c = tab) (ws @ dquote # v @ dquote # rest) = ws"
    by (subst takeWhile_append2) auto
  with shape have pos: "skip_blanks json (p + length ?search) = q"
    unfolding slen q_def by (simp add: skip_blanks_eq)
  have "length ?tail = length (ws @ [dquote] @ v @ [dquote] @ rest)"
    by (simp only: shape)
  then have len: "length json - ?start = length ws + length v + length rest + 2"
    by simp
  then have lt: "q < length json" unfolding q_def by arith
  then have inside: "(length json \<le> q) = False" by simp
  have "json ! q = ?tail ! length ws"
    using lt unfolding q_def by simp
  also have "\<dots> = dquote" by (simp add: shape)
  finally have quote: "(json ! q = dquote) = True" by simp
  have "drop (q + 1) json = drop (length ws + 1) ?tail"
    unfolding q_def by (simp add: add.commute)
  also have "\<dots> = v @ dquote # rest" by (simp add: shape)
  finally have after: "drop (q + 1) json = v @ dquote # rest" .
  from raw have "find_if (\<lambda>x. x = dquote) (v @ dquote # rest) = Some (length v)"
    by (intro find_if_first) auto
  with after have close: "find_char json dquote (q + 1) = Some (q + 1 + length v)"
    by (simp add: find_char_def)
  have sub: "substr json (q + 1) (q + 1 + length v - (q + 1)) = v"
    by (simp only: substr_def after) simp
  show ?thesis
    by (simp only: json_get_def Let_def found option.case pos inside quote close sub if_True if_False)
qed


text \<open>
  Claim C2, as the code has it. For a value written as a double-quoted string, the extractor
  returns the characters between the opening quote and the next double-quote character as
  they are, backslashes included: nothing is unescaped.
\<close>

theorem json_get_quoted_value_is_raw:
  assumes "find_str json ([dquote] @ key @ [dquote, CHR '':'']) = Some p"
    and "drop (p + (length key + 3)) json = ws @ [dquote] @ v @ [dquote] @ rest"
    and "set ws \<subseteq> {space, tab}"
    and "dquote \<notin> set v"
  shows "json_get json key = v"
  using assms by (rule json_get_quoted_raw)

theorem json_get_quoted_value_is_raw_witness:
  \<open>json_get (''{"k": "a'' @ [backslash, backslash] @ ''b","n":1}'') ''k'' =
     [CHR ''a'', backslash, backslash, CHR ''b'']\<close>
proof -
  let ?json = \<open>''{"k": "a'' @ [backslash, backslash] @ ''b","n":1}''\<close>
  have found: "find_str ?json ([dquote] @ ''k'' @ [dquote, CHR '':'']) = Some 1"
    by code_simp
  have shape: \<open>drop (1 + (length ''k'' + 3)) ?json =
      [space] @ [dquote] @ [CHR ''a'', backslash, backslash, CHR ''b''] @ [dquote] @ '',"n":1}''\<close>
    by simp
  have blanks: "set [space] \<subseteq> {space, tab}" by simp
  have raw: "dquote \<notin> set [CHR ''a'', backslash, backslash, CHR ''b'']" by simp
  show ?thesis
    by (rule json_get_quoted_value_is_raw [OF found shape blanks raw])
qed

theorem json_get_unescape_counterexample:
  \<open>json_get (''{"k":"a'' @ [backslash, dquote] @ ''b"}'') ''k'' = [CHR ''a'', backslash] \<and>
   json_get (''{"k":"a'' @ [backslash, dquote] @ ''b"}'') ''k'' \<noteq> [CHR ''a'', dquote, CHR ''b''] \<and>
   json_get (''{"k":"a'' @ [backslash, backslash] @ ''b"}'') ''k'' =
     [CHR ''a'', backslash, backslash, CHR ''b''] \<and>
   json_get (''{"k":"a'' @ [backslash, backslash] @ ''b"}'') ''k'' \<noteq> [CHR ''a'', backslash, CHR ''b'']\<close>
  by code_simp

section \<open>Properties of the dispatcher\<close>

lemma io_events_calls [simp]: "io_events (map Call cs) = []"
  by (induction cs) simp_all

lemma io_events_append [simp]: "io_events (xs @ ys) = io_events xs @ io_events ys"
  by (induction xs rule: io_events.induct) simp_all

lemma reads_append [simp]: "reads (xs @ ys) = reads xs @ reads ys"
  by (induction xs rule: reads.induct) simp_all

lemma reads_calls [simp]: "reads (map Call cs) = []"
  by (induction cs) simp_all

lemma answersI:
  assumes "\<And>w e w'. m w = (Inl e, w') \<Longrightarrow> \<exists>cs. trace w' = trace w @ map Call cs"
    and "\<And>w fl w'. m w = (Inr fl, w') \<Longrightarrow> \<exists>cs r. P r \<and> trace w' = trace w @ map Call cs @ [Write r]"
  shows "answers P m"
  unfolding answers_def using assms by blast

lemma answers_exn:
  "answers P m \<Longrightarrow> m w = (Inl e, w') \<Longrightarrow> \<exists>cs. trace w' = trace w @ map Call cs"
  unfolding answers_def by blast

lemma answers_reply:
  "answers P m \<Longrightarrow> m w = (Inr fl, w') \<Longrightarrow>
   \<exists>cs r. P r \<and> trace w' = trace w @ map Call cs @ [Write r]"
  unfolding answers_def by blast

lemma answers_finish_error:
  \<open>P (''{"status":"error","message":"'' @ escape_json msg @ ''"}'') \<Longrightarrow>
   answers P (finish fl (respond_error msg))\<close>
  by (rule answersI) (auto simp: finish_def respond_error_def respond_def intro: exI [of _ "[]"])

lemma answers_finish_ok:
  \<open>P (if extra = [] then ''{"status":"ok"}'' else ''{"status":"ok",'' @ extra @ ''}'') \<Longrightarrow>
   answers P (finish fl (respond_ok extra))\<close>
  by (rule answersI) (auto simp: finish_def respond_ok_def respond_def intro: exI [of _ "[]"])

lemma answers_call:
  fixes op :: "'s \<Rightarrow> (exn + 'a) \<times> 's"
  assumes "\<And>a. answers P (f a)"
  shows "answers P (and_then (call c op) f)"
proof (rule answersI)
  fix w :: "'s world" and e w'
  assume run: "and_then (call c op) f w = (Inl e, w')"
  obtain r s' where op: "op (cte w) = (r, s')" by (cases "op (cte w)")
  let ?w1 = "\<lparr>cte = s', trace = trace w @ [Call c]\<rparr>"
  show "\<exists>cs. trace w' = trace w @ map Call cs"
  proof (cases r)
    case (Inl e')
    with op run have "w' = ?w1" by (simp add: and_then_call_exn)
    then have "trace w' = trace w @ map Call [c]" by simp
    then show ?thesis by blast
  next
    case (Inr a)
    with op run have "f a ?w1 = (Inl e, w')" by (simp add: and_then_call)
    from answers_exn [OF assms this] obtain cs where "trace w' = trace ?w1 @ map Call cs" ..
    then have "trace w' = trace w @ map Call (c # cs)" by simp
    then show ?thesis by blast
  qed
next
  fix w :: "'s world" and fl w'
  assume run: "and_then (call c op) f w = (Inr fl, w')"
  obtain r s' where op: "op (cte w) = (r, s')" by (cases "op (cte w)")
  let ?w1 = "\<lparr>cte = s', trace = trace w @ [Call c]\<rparr>"
  show "\<exists>cs r. P r \<and> trace w' = trace w @ map Call cs @ [Write r]"
  proof (cases r)
    case (Inl e')
    with op run show ?thesis by (simp add: and_then_call_exn)
  next
    case (Inr a)
    with op run have "f a ?w1 = (Inr fl, w')" by (simp add: and_then_call)
    from answers_reply [OF assms this] obtain cs r
      where "P r" and "trace w' = trace ?w1 @ map Call cs @ [Write r]" by blast
    then have "P r \<and> trace w' = trace w @ map Call (c # cs) @ [Write r]" by simp
    then show ?thesis by blast
  qed
qed

lemma one_line_escape_json: "newline \<notin> set (escape_json s)"
  by (induction s) simp_all

lemma digit_char_not_newline: "d < 10 \<Longrightarrow> newline \<noteq> digit_char d"
proof -
  assume "d < 10"
  then have "d \<in> set [0..<10]" by simp
  also have "[0..<10] = [0, 1, 2, 3, 4, 5, 6, 7, 8, 9 :: nat]" by code_simp
  finally have "d \<in> set [0, 1, 2, 3, 4, 5, 6, 7, 8, 9 :: nat]" .
  moreover have "\<forall>d \<in> set [0, 1, 2, 3, 4, 5, 6, 7, 8, 9 :: nat]. newline \<noteq> digit_char d"
    by code_simp
  ultimately show ?thesis by blast
qed

lemma one_line_to_string: "newline \<notin> set (to_string n)"
proof (induction n rule: to_string.induct)
  case (1 n)
  show ?case
  proof (cases "n < 10")
    case True
    then show ?thesis
      by (subst to_string.simps) (simp add: digit_char_not_newline)
  next
    case False
    with "1.IH" show ?thesis
      by (subst to_string.simps) (simp add: digit_char_not_newline)
  qed
qed

lemma one_line_to_hex: "newline \<notin> set (to_hex data (length data))"
proof -
  have "newline \<notin> set hex_digits" by (simp add: hex_digits_def)
  with encode_chars [of data] show ?thesis
    unfolding to_hex_eq by blast
qed

lemma one_line_quoted_items: "newline \<notin> set (quoted_items v)"
  by (auto simp: quoted_items_def one_line_escape_json)

lemma one_line_error:
  \<open>one_line (''{"status":"error","message":"'' @ escape_json msg @ ''"}'')\<close>
  by (simp add: one_line_def one_line_escape_json)

lemma answers_error: "answers one_line (finish fl (respond_error msg))"
  by (rule answers_finish_error) (rule one_line_error)

lemma answers_ok:
  "newline \<notin> set extra \<Longrightarrow> answers one_line (finish fl (respond_ok extra))"
  by (rule answers_finish_ok) (simp add: one_line_def)

lemma answers_handle_put: "answers one_line (handle_put fac line)"
  unfolding handle_put_def Let_def
  by (auto intro!: answers_call answers_error answers_ok simp: one_line_to_string)

lemma answers_handle_get: "answers one_line (handle_get fac line)"
proof -
  have "newline \<notin> set (to_hex (take n (written @ replicate n 0)) n)" for n and written :: "byte list"
  proof -
    have len: "length (take n (written @ replicate n 0)) = n" by simp
    show ?thesis
      using one_line_to_hex [of "take n (written @ replicate n 0)"] unfolding len .
  qed
  then show ?thesis
    unfolding handle_get_def Let_def
    by (auto intro!: answers_call answers_error answers_ok simp: one_line_to_string)
qed

lemma answers_handle_get_size: "answers one_line (handle_get_size fac line)"
  unfolding handle_get_size_def Let_def
  by (auto intro!: answers_call answers_error answers_ok simp: one_line_to_string)

lemma answers_handle_list_blobs: "answers one_line (handle_list_blobs fac line)"
  unfolding handle_list_blobs_def Let_def
  by (auto intro!: answers_call answers_error answers_ok simp: one_line_quoted_items)

lemma answers_handle_tag_query: "answers one_line (handle_tag_query fac line)"
  unfolding handle_tag_query_def Let_def
  by (auto intro!: answers_call answers_error answers_ok simp: one_line_quoted_items)

lemma answers_handle_del_blob: "answers one_line (handle_del_blob fac line)"
  unfolding handle_del_blob_def Let_def
  by (auto intro!: answers_call answers_error answers_ok)

lemma answers_handle_del_tag: "answers one_line (handle_del_tag fac line)"
  unfolding handle_del_tag_def Let_def
  by (auto intro!: answers_call answers_error answers_ok)

lemma answers_try_body: "answers one_line (try_body fac line cmd)"
  unfolding try_body_def
  by (auto intro!: answers_error answers_ok answers_handle_put answers_handle_get
      answers_handle_get_size answers_handle_list_blobs answers_handle_tag_query
      answers_handle_del_blob answers_handle_del_tag)

lemma iteration_skipped:
  "skipped line \<Longrightarrow> iteration fac line w = (Continue, w\<lparr>trace := trace w @ [Read line]\<rparr>)"
  by (simp add: iteration_def)

lemma iteration_answered:
  assumes request: "\<not> skipped line"
    and body: "answers P (try_body fac line (json_get line ''cmd''))"
    and errors: \<open>\<And>msg. P (''{"status":"error","message":"'' @ escape_json msg @ ''"}'')\<close>
  shows "\<exists>fl w' cs r. iteration fac line w = (fl, w') \<and> P r \<and>
           trace w' = trace w @ Read line # map Call cs @ [Write r]"
proof -
  let ?w1 = "w\<lparr>trace := trace w @ [Read line]\<rparr>"
  obtain res w2 where run: "try_body fac line (json_get line ''cmd'') ?w1 = (res, w2)"
    by (cases "try_body fac line (json_get line ''cmd'') ?w1")
  show ?thesis
  proof (cases res)
    case (Inr fl)
    with run answers_reply [OF body] obtain cs r
      where "P r" and "trace w2 = trace ?w1 @ map Call cs @ [Write r]" by blast
    with request run Inr have "iteration fac line w = (fl, w2) \<and> P r \<and>
        trace w2 = trace w @ Read line # map Call cs @ [Write r]"
      by (simp add: iteration_def)
    then show ?thesis by blast
  next
    case (Inl e)
    with run answers_exn [OF body] obtain cs
      where tr: "trace w2 = trace ?w1 @ map Call cs" by blast
    show ?thesis
    proof (cases e)
      case (StdException what)
      let ?r = \<open>''{"status":"error","message":"'' @ escape_json (''exception: '' @ what) @ ''"}''\<close>
      from request run Inl tr StdException
      have "iteration fac line w = (Done, respond_error (''exception: '' @ what) w2) \<and> P ?r \<and>
        trace (respond_error (''exception: '' @ what) w2) = trace w @ Read line # map Call cs @ [Write ?r]"
        using errors [of "''exception: '' @ what"]
        by (simp add: iteration_def respond_error_def respond_def)
      then show ?thesis by blast
    next
      case OtherException
      let ?r = \<open>''{"status":"error","message":"'' @ escape_json ''unknown exception'' @ ''"}''\<close>
      from request run Inl tr OtherException
      have "iteration fac line w = (Done, respond_error ''unknown exception'' w2) \<and> P ?r \<and>
        trace (respond_error ''unknown exception'' w2) = trace w @ Read line # map Call cs @ [Write ?r]"
        using errors [of "''unknown exception''"]
        by (simp add: iteration_def respond_error_def respond_def)
      then show ?thesis by blast
    qed
  qed
qed

lemma framed_skipped: "skipped l \<Longrightarrow> framed es \<Longrightarrow> framed (Read l # es)"
  by (cases es rule: framed.cases) simp_all

lemma writes_append: "writes (xs @ ys) = writes xs @ writes ys"
  by (induction xs rule: writes.induct) simp_all

lemma writes_calls [simp]: "writes (map Call cs) = []"
  by (induction cs) simp_all

lemma loop_framed:
  "\<exists>new. trace (loop fac input w) = trace w @ new \<and> framed (io_events new) \<and>
         prefix (reads new) input \<and> list_all one_line (writes new)"
proof (induction input arbitrary: w)
  case Nil
  have "trace (loop fac [] w) = trace w @ [] \<and> framed (io_events []) \<and> prefix (reads []) [] \<and>
      list_all one_line (writes [])"
    by simp
  then show ?case by blast
next
  case (Cons line rest)
  show ?case
  proof (cases "skipped line")
    case True
    let ?w1 = "w\<lparr>trace := trace w @ [Read line]\<rparr>"
    from Cons.IH [of ?w1] obtain new
      where "trace (loop fac rest ?w1) = trace ?w1 @ new" and "framed (io_events new)"
        and "prefix (reads new) rest" and "list_all one_line (writes new)" by blast
    with True have "trace (loop fac (line # rest) w) = trace w @ (Read line # new) \<and>
        framed (io_events (Read line # new)) \<and> prefix (reads (Read line # new)) (line # rest) \<and>
        list_all one_line (writes (Read line # new))"
      by (simp add: iteration_skipped framed_skipped)
    then show ?thesis by blast
  next
    case False
    from iteration_answered [OF False answers_try_body one_line_error, of fac w]
    obtain fl w' cs r where it: "iteration fac line w = (fl, w')" and one: "one_line r"
      and tr: "trace w' = trace w @ Read line # map Call cs @ [Write r]" by auto
    show ?thesis
    proof (cases "fl = Break")
      case True
      with it tr one False
      have "trace (loop fac (line # rest) w) = trace w @ (Read line # map Call cs @ [Write r]) \<and>
          framed (io_events (Read line # map Call cs @ [Write r])) \<and>
          prefix (reads (Read line # map Call cs @ [Write r])) (line # rest) \<and>
          list_all one_line (writes (Read line # map Call cs @ [Write r]))"
        by (simp add: writes_append)
      then show ?thesis by blast
    next
      case notbreak: False
      with it have step: "loop fac (line # rest) w = loop fac rest w'"
        by (cases fl) simp_all
      from Cons.IH [of w'] obtain new
        where "trace (loop fac rest w') = trace w' @ new" and "framed (io_events new)"
          and "prefix (reads new) rest" and "list_all one_line (writes new)" by blast
      with tr one False step
      have "trace (loop fac (line # rest) w) = trace w @ (Read line # map Call cs @ [Write r] @ new) \<and>
          framed (io_events (Read line # map Call cs @ [Write r] @ new)) \<and>
          prefix (reads (Read line # map Call cs @ [Write r] @ new)) (line # rest) \<and>
          list_all one_line (writes (Read line # map Call cs @ [Write r] @ new))"
        by (simp add: writes_append)
      then show ?thesis by blast
    qed
  qed
qed

text \<open>
  Claim C4. Every line the loop consumes is answered in place: a blank line or a line
  starting with \<^verbatim>\<open>#\<close> is followed by no written line, any other line by exactly one
  written line, which comes before the next line is read. The lines read are the input
  lines in their order, up to the point where the loop ends, and every written response
  is a single line of output.
\<close>

theorem one_response_per_request:
  "(\<exists>fl w' new. iteration fac line w = (fl, w') \<and> trace w' = trace w @ Read line # new \<and>
       reads new = [] \<and> length (writes new) = (if skipped line then 0 else 1) \<and>
       list_all one_line (writes new)) \<and>
   (\<exists>new. trace (loop fac input w) = trace w @ new \<and> framed (io_events new) \<and>
       prefix (reads new) input \<and> list_all one_line (writes new))"
proof
  show "\<exists>fl w' new. iteration fac line w = (fl, w') \<and> trace w' = trace w @ Read line # new \<and>
       reads new = [] \<and> length (writes new) = (if skipped line then 0 else 1) \<and>
       list_all one_line (writes new)"
  proof (cases "skipped line")
    case True
    then have "iteration fac line w = (Continue, w\<lparr>trace := trace w @ [Read line]\<rparr>) \<and>
        trace (w\<lparr>trace := trace w @ [Read line]\<rparr>) = trace w @ Read line # [] \<and>
        reads [] = [] \<and> length (writes []) = (if skipped line then 0 else 1) \<and>
        list_all one_line (writes [])"
      by (simp add: iteration_skipped)
    then show ?thesis by blast
  next
    case False
    from iteration_answered [OF False answers_try_body one_line_error, of fac w]
    obtain fl w' cs r where "iteration fac line w = (fl, w')" and "one_line r"
      and "trace w' = trace w @ Read line # map Call cs @ [Write r]" by auto
    with False have "iteration fac line w = (fl, w') \<and>
        trace w' = trace w @ Read line # (map Call cs @ [Write r]) \<and>
        reads (map Call cs @ [Write r]) = [] \<and>
        length (writes (map Call cs @ [Write r])) = (if skipped line then 0 else 1) \<and>
        list_all one_line (writes (map Call cs @ [Write r]))"
      by (simp add: writes_append)
    then show ?thesis by blast
  qed
next
  show "\<exists>new. trace (loop fac input w) = trace w @ new \<and> framed (io_events new) \<and>
       prefix (reads new) input \<and> list_all one_line (writes new)"
    by (rule loop_framed)
qed

theorem one_response_per_request_witness:
  \<open>framed (io_events (trace (loop mem_facade
      [''{"cmd":"put","tag":"t1","blob":"b1","data":"4869"}'', [], ''# note'',
       ''{"cmd":"get","tag":"t1","blob":"b1"}'', ''{"cmd":"quit"}'', ''{"cmd":"ping"}''] start))) \<and>
   io_events (trace (loop mem_facade
      [''{"cmd":"put","tag":"t1","blob":"b1","data":"4869"}'', [], ''# note'',
       ''{"cmd":"get","tag":"t1","blob":"b1"}'', ''{"cmd":"quit"}'', ''{"cmd":"ping"}''] start)) =
     [Read ''{"cmd":"put","tag":"t1","blob":"b1","data":"4869"}'',
      Write ''{"status":"ok","size":2}'',
      Read [], Read ''# note'',
      Read ''{"cmd":"get","tag":"t1","blob":"b1"}'',
      Write ''{"status":"ok","size":2,"data":"4869"}'',
      Read ''{"cmd":"quit"}'',
      Write ''{"status":"ok"}'']\<close>
proof -
  define input where \<open>input =
      [''{"cmd":"put","tag":"t1","blob":"b1","data":"4869"}'', [], ''# note'',
       ''{"cmd":"get","tag":"t1","blob":"b1"}'', ''{"cmd":"quit"}'', ''{"cmd":"ping"}'']\<close>
  define line where "line = ''# note''"
  from one_response_per_request [of mem_facade line start input]
  obtain new where "trace (loop mem_facade input start) = trace start @ new"
    and "framed (io_events new)" by blast
  then have "framed (io_events (trace (loop mem_facade input start)))"
    by (simp add: start_def)
  moreover have \<open>io_events (trace (loop mem_facade input start)) =
     [Read ''{"cmd":"put","tag":"t1","blob":"b1","data":"4869"}'',
      Write ''{"status":"ok","size":2}'',
      Read [], Read ''# note'',
      Read ''{"cmd":"get","tag":"t1","blob":"b1"}'',
      Write ''{"status":"ok","size":2,"data":"4869"}'',
      Read ''{"cmd":"quit"}'',
      Write ''{"status":"ok"}'']\<close>
    unfolding input_def by code_simp
  ultimately show ?thesis unfolding input_def by (rule conjI)
qed

lemma escape_json_unknown:
  "escape_json (''unknown command: '' @ cmd) = ''unknown command: '' @ escape_json cmd"
  by (simp add: escape_json_append)

text \<open>
  Claim C7. A request whose \<^verbatim>\<open>cmd\<close> is none of the recognized commands is answered by the
  error response \<^verbatim>\<open>{"status":"error","message":"unknown command: <cmd>"}\<close> (with the
  command name escaped as any message is), without any call into the engine, and the loop
  goes on with the next line.
\<close>

theorem unknown_command_answer:
  assumes "\<not> skipped line"
    and "json_get line ''cmd'' = cmd"
    and "cmd \<notin> set [''put'', ''get'', ''get_size'', ''list_blobs'', ''tag_query'', ''del_blob'',
                     ''del_tag'', ''ping'', ''quit'', ''exit'']"
  shows \<open>iteration fac line w =
      (Done, w\<lparr>trace := trace w @
         [Read line,
          Write (''{"status":"error","message":"unknown command: '' @ escape_json cmd @ ''"}'')]\<rparr>) \<and>
    loop fac (line # rest) w =
      loop fac rest (w\<lparr>trace := trace w @
         [Read line,
          Write (''{"status":"error","message":"unknown command: '' @ escape_json cmd @ ''"}'')]\<rparr>)\<close>
proof -
  from assms(3) have body: "try_body fac line cmd = finish Done (respond_error (''unknown command: '' @ cmd))"
    by (simp add: try_body_def)
  have it: \<open>iteration fac line w =
      (Done, w\<lparr>trace := trace w @
         [Read line,
          Write (''{"status":"error","message":"unknown command: '' @ escape_json cmd @ ''"}'')]\<rparr>)\<close>
    using assms(1,2)
    by (simp add: iteration_def body finish_def respond_error_def respond_def escape_json_unknown)
  then show ?thesis by simp
qed

theorem unknown_command_answer_witness:
  \<open>trace (loop mem_facade [''{"cmd":"bogus"}'', ''{"cmd":"ping"}''] start) =
     [Read ''{"cmd":"bogus"}'',
      Write ''{"status":"error","message":"unknown command: bogus"}'',
      Read ''{"cmd":"ping"}'',
      Write ''{"status":"ok"}'']\<close>
proof -
  define line where \<open>line = ''{"cmd":"bogus"}''\<close>
  define rest where \<open>rest = [''{"cmd":"ping"}'']\<close>
  have request: "\<not> skipped line" by (simp add: skipped_def line_def)
  have cmd: "json_get line ''cmd'' = ''bogus''" unfolding line_def by code_simp
  have unknown: "''bogus'' \<notin> set [''put'', ''get'', ''get_size'', ''list_blobs'', ''tag_query'',
      ''del_blob'', ''del_tag'', ''ping'', ''quit'', ''exit'']" by simp
  note step = unknown_command_answer [OF request cmd unknown, of mem_facade start rest, THEN conjunct2]
  have \<open>trace (loop mem_facade rest (start\<lparr>trace := trace start @
         [Read line,
          Write (''{"status":"error","message":"unknown command: '' @ escape_json ''bogus'' @ ''"}'')]\<rparr>)) =
     [Read ''{"cmd":"bogus"}'',
      Write ''{"status":"error","message":"unknown command: bogus"}'',
      Read ''{"cmd":"ping"}'',
      Write ''{"status":"ok"}'']\<close>
    unfolding line_def rest_def by code_simp
  then have \<open>trace (loop mem_facade (line # rest) start) =
     [Read ''{"cmd":"bogus"}'',
      Write ''{"status":"error","message":"unknown command: bogus"}'',
      Read ''{"cmd":"ping"}'',
      Write ''{"status":"ok"}'']\<close>
    by (simp only: step)
  then show ?thesis unfolding line_def rest_def .
qed

text \<open>
  Claim C6. When the \<^verbatim>\<open>try\<close> block of a request throws, nothing but calls into the engine
  has happened since the line was read; the exception is caught in the same pass of the loop,
  one error response is written (\<^verbatim>\<open>exception: \<close> followed by \<^verbatim>\<open>what()\<close> for a
  \<^verbatim>\<open>std::exception\<close>, \<^verbatim>\<open>unknown exception\<close> for anything else), and the loop goes
  on with the next line.
\<close>

theorem backend_exception_becomes_error_response:
  assumes "\<not> skipped line"
    and "try_body fac line (json_get line ''cmd'') (w\<lparr>trace := trace w @ [Read line]\<rparr>) = (Inl e, w')"
  shows "(\<exists>cs. trace w' = trace w @ Read line # map Call cs) \<and>
    iteration fac line w =
      (Done, respond_error (case e of StdException what \<Rightarrow> ''exception: '' @ what
                                     | OtherException \<Rightarrow> ''unknown exception'') w') \<and>
    loop fac (line # rest) w =
      loop fac rest (respond_error (case e of StdException what \<Rightarrow> ''exception: '' @ what
                                            | OtherException \<Rightarrow> ''unknown exception'') w')"
proof -
  from answers_exn [OF answers_try_body assms(2)]
  have "\<exists>cs. trace w' = trace w @ Read line # map Call cs" by simp
  moreover from assms have it: "iteration fac line w =
      (Done, respond_error (case e of StdException what \<Rightarrow> ''exception: '' @ what
                                     | OtherException \<Rightarrow> ''unknown exception'') w')"
    by (cases e) (simp_all add: iteration_def)
  moreover from it have "loop fac (line # rest) w =
      loop fac rest (respond_error (case e of StdException what \<Rightarrow> ''exception: '' @ what
                                            | OtherException \<Rightarrow> ''unknown exception'') w')"
    by simp
  ultimately show ?thesis by blast
qed

theorem backend_exception_becomes_error_response_witness:
  \<open>trace (loop (throwing_put (StdException ''disk full''))
      [''{"cmd":"put","tag":"t","blob":"b","data":"00"}'', ''{"cmd":"ping"}''] start) =
     [Read ''{"cmd":"put","tag":"t","blob":"b","data":"00"}'',
      Call (Tag_call ''t''), Call (PutBlob_call ''b'' [0]),
      Write ''{"status":"error","message":"exception: disk full"}'',
      Read ''{"cmd":"ping"}'',
      Write ''{"status":"ok"}'']\<close>
proof -
  define line where \<open>line = ''{"cmd":"put","tag":"t","blob":"b","data":"00"}''\<close>
  define rest where \<open>rest = [''{"cmd":"ping"}'']\<close>
  define fac where "fac = throwing_put (StdException ''disk full'')"
  define w' :: "mem world" where
    "w' = \<lparr>cte = [], trace = [Read line, Call (Tag_call ''t''), Call (PutBlob_call ''b'' [0])]\<rparr>"
  have request: "\<not> skipped line" by (simp add: skipped_def line_def)
  have thrown: "try_body fac line (json_get line ''cmd'') (start\<lparr>trace := trace start @ [Read line]\<rparr>)
      = (Inl (StdException ''disk full''), w')"
    unfolding line_def fac_def w'_def by code_simp
  note step = backend_exception_becomes_error_response [OF request thrown, of rest,
      THEN conjunct2, THEN conjunct2]
  have \<open>trace (loop fac rest (respond_error (case StdException ''disk full'' of
            StdException what \<Rightarrow> ''exception: '' @ what
          | OtherException \<Rightarrow> ''unknown exception'') w')) =
     [Read ''{"cmd":"put","tag":"t","blob":"b","data":"00"}'',
      Call (Tag_call ''t''), Call (PutBlob_call ''b'' [0]),
      Write ''{"status":"error","message":"exception: disk full"}'',
      Read ''{"cmd":"ping"}'',
      Write ''{"status":"ok"}'']\<close>
    unfolding line_def rest_def fac_def w'_def by code_simp
  then have \<open>trace (loop fac (line # rest) start) =
     [Read ''{"cmd":"put","tag":"t","blob":"b","data":"00"}'',
      Call (Tag_call ''t''), Call (PutBlob_call ''b'' [0]),
      Write ''{"status":"error","message":"exception: disk full"}'',
      Read ''{"cmd":"ping"}'',
      Write ''{"status":"ok"}'']\<close>
    by (simp only: step)
  then show ?thesis unfolding line_def rest_def fac_def .
qed

lemma digit_char_nonzero: "0 < n \<Longrightarrow> n < 10 \<Longrightarrow> digit_char n \<noteq> CHR ''0''"
proof -
  assume "0 < n" and "n < 10"
  then have "n \<in> set [1..<10]" by simp
  also have "[1..<10] = [1, 2, 3, 4, 5, 6, 7, 8, 9 :: nat]" by code_simp
  finally have "n \<in> set [1, 2, 3, 4, 5, 6, 7, 8, 9 :: nat]" .
  moreover have "\<forall>d \<in> set [1, 2, 3, 4, 5, 6, 7, 8, 9 :: nat]. digit_char d \<noteq> CHR ''0''"
    by code_simp
  ultimately show ?thesis by blast
qed

lemma to_string_head: "n \<noteq> 0 \<Longrightarrow> \<exists>d ds. to_string n = d # ds \<and> d \<noteq> CHR ''0''"
proof (induction n rule: to_string.induct)
  case (1 n)
  show ?case
  proof (cases "n < 10")
    case True
    with "1.prems" have "digit_char n \<noteq> CHR ''0''" by (simp add: digit_char_nonzero)
    with True show ?thesis by (subst to_string.simps) simp
  next
    case False
    then have "n div 10 \<noteq> 0" by simp
    with False "1.IH" obtain d ds where "to_string (n div 10) = d # ds" and "d \<noteq> CHR ''0''"
      by blast
    with False show ?thesis by (subst to_string.simps) simp
  qed
qed

lemma answers_handle_get_nonzero:
  \<open>answers (\<lambda>r. \<not> prefix ''{"status":"ok","size":0'' r) (handle_get fac line)\<close>
proof -
  let ?P = \<open>\<lambda>r. \<not> prefix ''{"status":"ok","size":0'' r\<close>
  have err: "answers ?P (finish fl (respond_error msg))" for fl msg
    by (rule answers_finish_error) simp
  have ok: \<open>answers ?P (finish Done (respond_ok (''"size":'' @ to_string (unat size) @ rest)))\<close>
    if "size \<noteq> 0" for size :: u64 and rest
  proof -
    from that have "unat size \<noteq> 0" by (simp add: unat_eq_0)
    from to_string_head [OF this] obtain d ds
      where "to_string (unat size) = d # ds" and "d \<noteq> CHR ''0''" by blast
    then show ?thesis
      by (intro answers_finish_ok) simp
  qed
  show ?thesis
    unfolding handle_get_def Let_def
    by (auto intro!: answers_call err ok simp del: append.simps append_assoc)
qed

text \<open>
  Claim C5. A \<^verbatim>\<open>get\<close> with non-empty tag and blob for which the engine reports size 0
  (the blob is absent or empty) is answered by the error response
  \<^verbatim>\<open>blob not found or empty\<close>, and \<^verbatim>\<open>GetBlob\<close> is not called. Whatever the engine
  does, the single response to a \<^verbatim>\<open>get\<close> is never an Ok response with size 0.
\<close>

theorem get_missing_blob_is_error:
  assumes "\<not> skipped line"
    and "json_get line ''cmd'' = ''get''"
    and "json_get line ''tag'' \<noteq> []"
    and "json_get line ''blob'' \<noteq> []"
  shows \<open>(Tag fac (json_get line ''tag'') (cte w) = (Inr t, s1) \<and>
      GetBlobSize fac t (json_get line ''blob'') s1 = (Inr 0, s2) \<longrightarrow>
      iteration fac line w =
        (Continue, \<lparr>cte = s2, trace = trace w @
           [Read line,
            Call (Tag_call (json_get line ''tag'')),
            Call (GetBlobSize_call (json_get line ''blob'')),
            Write ''{"status":"error","message":"blob not found or empty"}'']\<rparr>)) \<and>
    (\<exists>fl w' cs r. iteration fac line w = (fl, w') \<and>
       \<not> prefix ''{"status":"ok","size":0'' r \<and>
       trace w' = trace w @ Read line # map Call cs @ [Write r])\<close>
proof
  show \<open>Tag fac (json_get line ''tag'') (cte w) = (Inr t, s1) \<and>
      GetBlobSize fac t (json_get line ''blob'') s1 = (Inr 0, s2) \<longrightarrow>
      iteration fac line w =
        (Continue, \<lparr>cte = s2, trace = trace w @
           [Read line,
            Call (Tag_call (json_get line ''tag'')),
            Call (GetBlobSize_call (json_get line ''blob'')),
            Write ''{"status":"error","message":"blob not found or empty"}'']\<rparr>)\<close>
    using assms
    by (simp add: iteration_def try_body_def handle_get_def Let_def and_then_call finish_def
        respond_error_def respond_def)
next
  have body: "try_body fac line (json_get line ''cmd'') = handle_get fac line"
    using assms(2) by (simp add: try_body_def)
  show \<open>\<exists>fl w' cs r. iteration fac line w = (fl, w') \<and>
       \<not> prefix ''{"status":"ok","size":0'' r \<and>
       trace w' = trace w @ Read line # map Call cs @ [Write r]\<close>
  proof (rule iteration_answered [OF assms(1)])
    show \<open>answers (\<lambda>r. \<not> prefix ''{"status":"ok","size":0'' r)
        (try_body fac line (json_get line ''cmd''))\<close>
      unfolding body by (rule answers_handle_get_nonzero)
  next
    fix msg
    show \<open>\<not> prefix ''{"status":"ok","size":0''
        (''{"status":"error","message":"'' @ escape_json msg @ ''"}'')\<close>
      by simp
  qed
qed

theorem get_missing_blob_is_error_witness:
  \<open>iteration mem_facade ''{"cmd":"get","tag":"t","blob":"missing"}'' start =
     (Continue, \<lparr>cte = [], trace =
        [Read ''{"cmd":"get","tag":"t","blob":"missing"}'',
         Call (Tag_call ''t''), Call (GetBlobSize_call ''missing''),
         Write ''{"status":"error","message":"blob not found or empty"}'']\<rparr>)\<close>
proof -
  define line where \<open>line = ''{"cmd":"get","tag":"t","blob":"missing"}''\<close>
  have request: "\<not> skipped line" by (simp add: skipped_def line_def)
  have cmd: "json_get line ''cmd'' = ''get''" unfolding line_def by code_simp
  have tag: "json_get line ''tag'' = ''t''" unfolding line_def by code_simp
  have blob: "json_get line ''blob'' = ''missing''" unfolding line_def by code_simp
  have tag_given: "json_get line ''tag'' \<noteq> []" by (simp add: tag)
  have blob_given: "json_get line ''blob'' \<noteq> []" by (simp add: blob)
  have engine: "Tag mem_facade (json_get line ''tag'') (cte start) = (Inr ''t'', []) \<and>
      GetBlobSize mem_facade ''t'' (json_get line ''blob'') [] = (Inr 0, [])"
    by (simp add: tag blob mem_facade_def start_def)
  note inst = get_missing_blob_is_error [OF request cmd tag_given blob_given,
      of mem_facade start "''t''" "[]" "[]", THEN conjunct1, rule_format, OF engine]
  then show ?thesis
    unfolding tag blob by (simp add: start_def line_def)
qed

text \<open>
  Claim C1, as the code has it. For \<^verbatim>\<open>put\<close> and \<^verbatim>\<open>get\<close>, a request whose tag or blob
  is empty or absent is answered by the validation error \<^verbatim>\<open><cmd> requires tag and blob\<close>
  and no call into the engine is made for it.
\<close>

theorem put_get_require_tag_and_blob:
  assumes "\<not> skipped line"
    and "json_get line ''cmd'' = cmd"
    and "cmd = ''put'' \<or> cmd = ''get''"
    and "json_get line ''tag'' = [] \<or> json_get line ''blob'' = []"
  shows \<open>iteration fac line w =
      (Continue, w\<lparr>trace := trace w @
         [Read line,
          Write (''{"status":"error","message":"'' @ cmd @ '' requires tag and blob"}'')]\<rparr>)\<close>
  using assms
  by (auto simp: iteration_def try_body_def handle_put_def handle_get_def Let_def finish_def
      respond_error_def respond_def)

theorem put_get_require_tag_and_blob_witness:
  \<open>iteration mem_facade ''{"cmd":"get","tag":"t"}'' start =
     (Continue, \<lparr>cte = [], trace =
        [Read ''{"cmd":"get","tag":"t"}'',
         Write ''{"status":"error","message":"get requires tag and blob"}'']\<rparr>)\<close>
proof -
  define line where \<open>line = ''{"cmd":"get","tag":"t"}''\<close>
  have request: "\<not> skipped line" by (simp add: skipped_def line_def)
  have cmd: "json_get line ''cmd'' = ''get''" unfolding line_def by code_simp
  have which: "''get'' = ''put'' \<or> ''get'' = ''get''" by simp
  have blob: "json_get line ''blob'' = []" unfolding line_def by code_simp
  then have missing: "json_get line ''tag'' = [] \<or> json_get line ''blob'' = []" by simp
  from put_get_require_tag_and_blob [OF request cmd which missing, of mem_facade start]
  show ?thesis by (simp add: start_def line_def)
qed

theorem required_fields_counterexample:
  \<open>iteration mem_facade ''{"cmd":"put","tag":"t","blob":"b"}'' start =
     (Done, \<lparr>cte = [((''t'', ''b''), [])], trace =
        [Read ''{"cmd":"put","tag":"t","blob":"b"}'',
         Call (Tag_call ''t''), Call (PutBlob_call ''b'' []),
         Write ''{"status":"ok","size":0}'']\<rparr>) \<and>
   iteration mem_facade ''{"cmd":"get_size"}'' start =
     (Done, \<lparr>cte = [], trace =
        [Read ''{"cmd":"get_size"}'',
         Call (Tag_call []), Call (GetBlobSize_call []),
         Write ''{"status":"ok","size":0}'']\<rparr>) \<and>
   iteration mem_facade ''{"cmd":"list_blobs"}'' start =
     (Done, \<lparr>cte = [], trace =
        [Read ''{"cmd":"list_blobs"}'',
         Call (Tag_call []), Call GetContainedBlobs_call,
         Write ''{"status":"ok","blobs":[]}'']\<rparr>) \<and>
   iteration mem_facade ''{"cmd":"del_blob","tag":"t"}'' start =
     (Done, \<lparr>cte = [], trace =
        [Read ''{"cmd":"del_blob","tag":"t"}'',
         Call (Tag_call ''t''), Call GetTagId_call, Call (DelBlob_call []),
         Write ''{"status":"ok"}'']\<rparr>) \<and>
   iteration mem_facade ''{"cmd":"del_tag"}'' start =
     (Done, \<lparr>cte = [], trace =
        [Read ''{"cmd":"del_tag"}'',
         Call (DelTag_call []),
         Write ''{"status":"ok"}'']\<rparr>)\<close>
  by code_simp

lemma main_init_refused:
  assumes "WRP_CTE_CLIENT_INIT fac (cte w) = (Inr False, s)"
  shows \<open>main fac input w =
     (Exit 1, \<lparr>cte = s, trace = trace w @
        [Call INIT_call,
         Write ''{"status":"error","message":"WRP_CTE_CLIENT_INIT failed"}'']\<rparr>)\<close>
  using assms by (simp add: main_def call_def respond_error_def respond_def)

lemma main_init_std_exception:
  assumes "WRP_CTE_CLIENT_INIT fac (cte w) = (Inl (StdException what), s)"
  shows \<open>main fac input w =
     (Exit 1, \<lparr>cte = s, trace = trace w @
        [Call INIT_call,
         Write (''{"status":"error","message":"Init exception: '' @ escape_json what @ ''"}'')]\<rparr>)\<close>
  using assms by (simp add: main_def call_def respond_error_def respond_def escape_json_append)

lemma main_init_ok:
  assumes "WRP_CTE_CLIENT_INIT fac (cte w) = (Inr True, s)"
  shows "fst (main fac input w) = Exit 0"
  using assms by (simp add: main_def call_def split: prod.splits)

lemma main_init_other_exception:
  assumes "WRP_CTE_CLIENT_INIT fac (cte w) = (Inl OtherException, s)"
  shows "main fac input w = (Uncaught OtherException, \<lparr>cte = s, trace = trace w @ [Call INIT_call]\<rparr>)"
  using assms by (simp add: main_def call_def)

text \<open>
  Claim C8, at the input on which the code departs from it. When
  \<^verbatim>\<open>WRP_CTE_CLIENT_INIT\<close> throws something that is not a \<^verbatim>\<open>std::exception\<close>, the first
  \<^verbatim>\<open>try\<close> block of \<^verbatim>\<open>main\<close> has no handler for it: the exception leaves \<^verbatim>\<open>main\<close>,
  no response is written and the process does not return 1.
\<close>

theorem main_init_exception_not_caught:
  \<open>main (throwing_init OtherException) [''{"cmd":"ping"}''] start =
     (Uncaught OtherException, \<lparr>cte = [], trace = [Call INIT_call]\<rparr>) \<and>
   main (throwing_init (StdException ''no runtime'')) [''{"cmd":"ping"}''] start =
     (Exit 1, \<lparr>cte = [], trace =
        [Call INIT_call,
         Write ''{"status":"error","message":"Init exception: no runtime"}'']\<rparr>) \<and>
   main refusing_init [''{"cmd":"ping"}''] start =
     (Exit 1, \<lparr>cte = [], trace =
        [Call INIT_call,
         Write ''{"status":"error","message":"WRP_CTE_CLIENT_INIT failed"}'']\<rparr>) \<and>
   main mem_facade [''{"cmd":"ping"}''] start =
     (Exit 0, \<lparr>cte = [], trace =
        [Call INIT_call, Call ListTargets_call,
         Write ''{"status":"ready","targets":["ram"],"target_count":1}'',
         Read ''{"cmd":"ping"}'',
         Write ''{"status":"ok"}'']\<rparr>)\<close>
  by code_simp

end
